theory Spec2Isabelle
  imports Main "HOL-Library.Sublist"
begin

section \<open>extract-docs.py: doxygen blocks of a mojom file\<close>

text \<open>
  The program reads a text file line by line, copies every comment block that opens
  with a line \<^verbatim>\<open>/**\<close> and closes with a line \<^verbatim>\<open> */\<close> into a string that
  starts with a fixed header, and writes that string to the output stream. This theory
  embeds the two compiled patterns, the name derivation, the loop and \<^verbatim>\<open>main\<close>, and
  proves the properties of the specification about them.
\<close>

subsection \<open>The two patterns and \<^verbatim>\<open>re.match\<close>\<close>

text \<open>
  Both patterns use only three constructs of Python's \<^verbatim>\<open>re\<close>: \<^verbatim>\<open>^\<close>, an escaped
  literal character, and \<^verbatim>\<open>$\<close>. No flag is given, so \<^verbatim>\<open>^\<close> matches at the start
  of the string only, and \<^verbatim>\<open>$\<close> matches at the end of the string or just before a
  newline that is the last character of the string.
\<close>

datatype atom = Bol | Eol | Lit char

text \<open>
  \<open>match_here p at_start rest\<close>: the atoms \<open>p\<close> match a prefix of what is left of the
  subject, \<open>rest\<close>; \<open>at_start\<close> says whether no character has been consumed yet.
\<close>

fun match_here :: "atom list \<Rightarrow> bool \<Rightarrow> string \<Rightarrow> bool" where
  "match_here [] at_start rest = True"
| "match_here (Bol # p) at_start rest = (at_start \<and> match_here p at_start rest)"
| "match_here (Eol # p) at_start rest =
     ((rest = [] \<or> rest = [CHR ''\<newline>'']) \<and> match_here p at_start rest)"
| "match_here (Lit c # p) at_start rest =
     (case rest of [] \<Rightarrow> False | d # ds \<Rightarrow> d = c \<and> match_here p False ds)"

text \<open>\<^verbatim>\<open>pattern.match(line)\<close>: a match anchored at position 0, as a truth value.\<close>

definition re_match :: "atom list \<Rightarrow> string \<Rightarrow> bool" where
  "re_match p s = match_here p True s"

text \<open>\<^verbatim>\<open>regex_block_start = re.compile('^\/\*\*$')\<close>\<close>

definition regex_block_start :: "atom list" where
  "regex_block_start = [Bol, Lit CHR ''/'', Lit CHR ''*'', Lit CHR ''*'', Eol]"

text \<open>\<^verbatim>\<open>regex_block_end = re.compile('^ \*\/$')\<close>\<close>

definition regex_block_end :: "atom list" where
  "regex_block_end = [Bol, Lit CHR '' '', Lit CHR ''*'', Lit CHR ''/'', Eol]"

subsection \<open>Reading the lines and deriving the name\<close>

text \<open>
  \<^verbatim>\<open>readlines()\<close> on a text file: every line keeps its terminator, and a last line
  without terminator is a line too. The argument is the text of the file as Python
  decodes it (universal newlines: every terminator is already \<^verbatim>\<open>\n\<close>).
\<close>

fun readlines_from :: "string \<Rightarrow> string \<Rightarrow> string list" where
  "readlines_from cur [] = (if cur = [] then [] else [cur])"
| "readlines_from cur (c # cs) =
     (if c = CHR ''\<newline>'' then (cur @ [c]) # readlines_from [] cs
      else readlines_from (cur @ [c]) cs)"

definition readlines :: "string \<Rightarrow> string list" where
  "readlines text = readlines_from [] text"

text \<open>
  \<^verbatim>\<open>s.split('/')\<close>, for the one-character separator the program uses: the fields
  between the separators, empty fields kept, never an empty list.
\<close>

fun split_from :: "char \<Rightarrow> string \<Rightarrow> string \<Rightarrow> string list" where
  "split_from sep cur [] = [cur]"
| "split_from sep cur (c # cs) =
     (if c = sep then cur # split_from sep [] cs else split_from sep (cur @ [c]) cs)"

definition split :: "char \<Rightarrow> string \<Rightarrow> string list" where
  "split sep s = split_from sep [] s"

text \<open>
  \<^verbatim>\<open>s.replace(old, new)\<close>: every occurrence of \<open>old\<close>, found from left to right
  without overlap, becomes \<open>new\<close>. With an empty \<open>old\<close>, Python puts \<open>new\<close> before every
  character and at the end.
\<close>

function replace :: "string \<Rightarrow> string \<Rightarrow> string \<Rightarrow> string" where
  "replace old new [] = (if old = [] then new else [])"
| "replace old new (c # cs) =
     (if old = [] then new @ c # replace old new cs
      else if prefix old (c # cs) then new @ replace old new (drop (length old) (c # cs))
      else c # replace old new cs)"
  by pat_completeness auto
termination
  by (relation "measure (\<lambda>(old, new, s). length s)") auto

text \<open>\<^verbatim>\<open>pipeline = args.input.split('/')[-1].replace('.mojom', '')\<close>\<close>

definition pipeline :: "string \<Rightarrow> string" where
  "pipeline input = replace ''.mojom'' '''' (last (split CHR ''/'' input))"

subsection \<open>The generated text\<close>

text \<open>The f-string that \<^verbatim>\<open>data\<close> starts as, and the line appended after the loop.\<close>

definition header :: "string \<Rightarrow> string" where
  "header name =
     ''/* SPDX-License-Identifier: LGPL-2.1-or-later */\<newline>'' @
     ''/*\<newline>'' @
     '' * Copyright (C) 2021, Google Inc.\<newline>'' @
     '' *\<newline>'' @
     '' * '' @ name @ ''_ipa_interface.cpp - Docs file for generated '' @ name @ ''.mojom\<newline>'' @
     '' *\<newline>'' @
     '' * This file is auto-generated. Do not edit.\<newline>'' @
     '' */\<newline>'' @
     ''\<newline>'' @
     ''namespace libcamera {\<newline>'' @
     ''\<newline>''"

definition footer :: string where
  "footer = ''} /* namespace libcamera */\<newline>''"

subsection \<open>The loop\<close>

text \<open>
  \<^verbatim>\<open>raise SyntaxError('Expected end of comment', (args.input, lineno, 1, line))\<close>:
  the message, then the file name, the line number, the column and the text.
\<close>

datatype error = SyntaxError string "string \<times> nat \<times> nat \<times> string"

text \<open>The three variables the loop updates.\<close>

record state =
  in_block :: bool
  comment :: string
  data :: string

text \<open>
  \<open>scan input lineno lines s\<close> runs the loop body on each of \<open>lines\<close>, the first of
  which has the number \<open>lineno\<close>, from the variables \<open>s\<close>. The raise ends the loop.
\<close>

fun scan :: "string \<Rightarrow> nat \<Rightarrow> string list \<Rightarrow> state \<Rightarrow> error + state" where
  "scan input lineno [] s = Inr s"
| "scan input lineno (line # rest) s =
     (if re_match regex_block_start line then
        (if in_block s then
           Inl (SyntaxError ''Expected end of comment'' (input, lineno, 1, line))
         else scan input (Suc lineno) rest (s\<lparr>in_block := True, comment := line\<rparr>))
      else if re_match regex_block_end line then
        scan input (Suc lineno) rest
          ((if in_block s then
              s\<lparr>comment := comment s @ line,
                data := data s @ (comment s @ line) @ ''\<newline>''\<rparr>
            else s)\<lparr>in_block := False\<rparr>)
      else
        scan input (Suc lineno) rest
          (if in_block s then s\<lparr>comment := comment s @ line\<rparr> else s))"

text \<open>
  What \<^verbatim>\<open>main\<close> does between reading the lines and writing: the variables start
  as \<^verbatim>\<open>in_block = False\<close>, \<^verbatim>\<open>comment = ''\<close> and the header with the derived name
  as \<^verbatim>\<open>data\<close>; the loop runs from line 1; the footer is appended. The result is the
  text to write.
\<close>

definition start_state :: "string \<Rightarrow> state" where
  "start_state input = \<lparr>in_block = False, comment = [], data = header (pipeline input)\<rparr>"

definition extract_docs :: "string \<Rightarrow> string list \<Rightarrow> error + string" where
  "extract_docs input lines =
     (case scan input 1 lines (start_state input) of
        Inl e \<Rightarrow> Inl e
      | Inr s \<Rightarrow> Inr (data s @ footer))"

text \<open>
  \<^verbatim>\<open>main\<close>, on the path given on the command line, the text of that file and what
  the output stream holds so far: the exit status or the exception, and what the output
  stream holds afterwards. The single \<^verbatim>\<open>write\<close> comes after the loop, so an exception
  leaves the stream as it was.
\<close>

definition main :: "string \<Rightarrow> string \<Rightarrow> string \<Rightarrow> (error + int) \<times> string" where
  "main input text out =
     (case extract_docs input (readlines text) of
        Inl e \<Rightarrow> (Inl e, out)
      | Inr d \<Rightarrow> (Inr 0, out @ d))"

subsection \<open>Words of the specification\<close>

text \<open>A line without its terminator, if it has one.\<close>

definition strip_terminator :: "string \<Rightarrow> string" where
  "strip_terminator l = (if l \<noteq> [] \<and> last l = CHR ''\<newline>'' then butlast l else l)"

abbreviation is_start :: "string \<Rightarrow> bool" where
  "is_start l \<equiv> re_match regex_block_start l"

abbreviation is_end :: "string \<Rightarrow> bool" where
  "is_end l \<equiv> re_match regex_block_end l"


text \<open>A line that is neither delimiter.\<close>

definition ordinary :: "string \<Rightarrow> bool" where
  "ordinary l \<longleftrightarrow> \<not> is_start l \<and> \<not> is_end l"

text \<open>
  A well-formed block of N lines: a start delimiter, N - 2 lines that are neither
  delimiter, an end delimiter.
\<close>

definition well_formed_block :: "string list \<Rightarrow> bool" where
  "well_formed_block b \<longleftrightarrow>
     2 \<le> length b \<and> is_start (hd b) \<and> list_all ordinary (butlast (tl b)) \<and> is_end (last b)"

text \<open>
  What the output holds between header and footer for the blocks \<open>bs\<close>: the lines of
  each block, then one newline.
\<close>

definition entries :: "string list list \<Rightarrow> string" where
  "entries bs = concat (map (\<lambda>b. concat b @ ''\<newline>'') bs)"

text \<open>
  The lines \<open>pre\<close> are scanned without error and leave no block open: a line that comes
  right after them is met while no block is open.
\<close>

definition outside_after :: "string \<Rightarrow> string list \<Rightarrow> bool" where
  "outside_after input pre =
     (case scan input 1 pre (start_state input) of
        Inl e \<Rightarrow> False
      | Inr s \<Rightarrow> \<not> in_block s)"

text \<open>The same error, reported one line further down.\<close>

fun shift_line :: "error \<Rightarrow> error" where
  "shift_line (SyntaxError msg (file, lineno, col, txt)) =
     SyntaxError msg (file, Suc lineno, col, txt)"

text \<open>
  Line \<open>j\<close> (counted from 0) is a start delimiter that follows an earlier start
  delimiter with no end delimiter between the two.
\<close>

definition nested_start :: "string list \<Rightarrow> nat \<Rightarrow> bool" where
  "nested_start ls j \<longleftrightarrow>
     j < length ls \<and> is_start (ls ! j) \<and>
     (\<exists>i\<in>{..<j}. is_start (ls ! i) \<and> (\<forall>k\<in>{i<..<j}. \<not> is_end (ls ! k)))"

text \<open>No start delimiter is followed, anywhere later, by an end delimiter.\<close>

definition no_pairs :: "string list \<Rightarrow> bool" where
  "no_pairs ls \<longleftrightarrow>
     (\<forall>j\<in>{..<length ls}. \<forall>i\<in>{..<j}. is_start (ls ! i) \<longrightarrow> \<not> is_end (ls ! j))"

text \<open>A name without the suffix \<open>suf\<close>, if it ends with it.\<close>

definition strip_suffix :: "string \<Rightarrow> string \<Rightarrow> string" where
  "strip_suffix suf s = (if suffix suf s then take (length s - length suf) s else s)"

text \<open>
  With \<open>b\<close> saying whether a block is open before line 0: the last delimiter before
  line \<open>j\<close> is a start delimiter, or there is none and \<open>b\<close> holds.
\<close>

definition open_before :: "bool \<Rightarrow> string list \<Rightarrow> nat \<Rightarrow> bool" where
  "open_before b ls j \<longleftrightarrow>
     (b \<and> (\<forall>k\<in>{..<j}. \<not> is_end (ls ! k))) \<or>
     (\<exists>i\<in>{..<j}. is_start (ls ! i) \<and> (\<forall>k\<in>{i<..<j}. \<not> is_end (ls ! k)))"

text \<open>Line \<open>j\<close> is the first start delimiter that is met while a block is open.\<close>

definition first_nested :: "bool \<Rightarrow> string list \<Rightarrow> nat \<Rightarrow> bool" where
  "first_nested b ls j \<longleftrightarrow>
     j < length ls \<and> is_start (ls ! j) \<and> open_before b ls j \<and>
     (\<forall>j'\<in>{..<j}. \<not> (is_start (ls ! j') \<and> open_before b ls j'))"

section \<open>Properties\<close>

subsection \<open>The bounded quantifiers, written with \<open><\<close>\<close>

lemma nested_start_alt:
  "nested_start ls j \<longleftrightarrow>
     j < length ls \<and> is_start (ls ! j) \<and>
     (\<exists>i<j. is_start (ls ! i) \<and> (\<forall>k<j. i < k \<longrightarrow> \<not> is_end (ls ! k)))"
  by (auto simp: nested_start_def)

lemma no_pairs_alt:
  "no_pairs ls \<longleftrightarrow> (\<forall>j<length ls. \<forall>i<j. is_start (ls ! i) \<longrightarrow> \<not> is_end (ls ! j))"
  by (auto simp: no_pairs_def)

lemma open_before_alt:
  "open_before b ls j \<longleftrightarrow>
     (b \<and> (\<forall>k<j. \<not> is_end (ls ! k))) \<or>
     (\<exists>i<j. is_start (ls ! i) \<and> (\<forall>k<j. i < k \<longrightarrow> \<not> is_end (ls ! k)))"
  by (auto simp: open_before_def)

lemma first_nested_alt:
  "first_nested b ls j \<longleftrightarrow>
     j < length ls \<and> is_start (ls ! j) \<and> open_before b ls j \<and>
     (\<forall>j'<j. \<not> (is_start (ls ! j') \<and> open_before b ls j'))"
  by (auto simp: first_nested_def)

subsection \<open>The delimiters\<close>

lemma is_start_iff: "is_start l \<longleftrightarrow> l = ''/**'' \<or> l = ''/**\<newline>''"
  by (auto simp: re_match_def regex_block_start_def split: list.splits)

lemma is_end_iff: "is_end l \<longleftrightarrow> l = '' */'' \<or> l = '' */\<newline>''"
  by (auto simp: re_match_def regex_block_end_def split: list.splits)

lemma start_not_end: "is_start l \<Longrightarrow> \<not> is_end l"
  by (auto simp: is_start_iff is_end_iff)

subsection \<open>The loop on parts of the input\<close>

lemma scan_append:
  "scan input n (xs @ ys) s =
     (case scan input n xs s of Inl e \<Rightarrow> Inl e | Inr s' \<Rightarrow> scan input (n + length xs) ys s')"
  by (induction xs arbitrary: n s) (auto split: sum.splits)

lemma not_in_block_upd: "\<not> in_block s \<Longrightarrow> s\<lparr>in_block := False\<rparr> = s"
  by simp

lemma scan_gap:
  "\<not> in_block s \<Longrightarrow> \<forall>l\<in>set g. \<not> is_start l \<Longrightarrow> scan input n g s = Inr s"
  by (induction g arbitrary: n) (auto simp: not_in_block_upd)

lemma scan_body:
  "in_block s \<Longrightarrow> \<forall>l\<in>set b. ordinary l \<Longrightarrow>
     scan input n b s = Inr (s\<lparr>comment := comment s @ concat b\<rparr>)"
  by (induction b arbitrary: n s) (auto simp: ordinary_def)

lemma well_formed_blockE:
  assumes "well_formed_block b"
  obtains st body en where "b = st # body @ [en]" "is_start st" "\<forall>l\<in>set body. ordinary l" "is_end en"
proof -
  from assms obtain st r where b: "b = st # r" "r \<noteq> []"
    by (cases b) (auto simp: well_formed_block_def Suc_le_eq)
  then have r: "r = butlast r @ [last r]" by simp
  show thesis
  proof (rule that[of st "butlast r" "last r"])
    show "b = st # butlast r @ [last r]" using b r by simp
    show "is_start st" using assms b by (simp add: well_formed_block_def)
    show "\<forall>l\<in>set (butlast r). ordinary l" using assms b by (simp add: well_formed_block_def list_all_iff)
    show "is_end (last r)" using assms b by (simp add: well_formed_block_def)
  qed
qed

lemma scan_block:
  assumes "\<not> in_block s" "well_formed_block b"
  shows "scan input n b s =
     Inr (s\<lparr>in_block := False, comment := concat b, data := data s @ concat b @ ''\<newline>''\<rparr>)"
proof -
  from assms(2) obtain st body en where b: "b = st # body @ [en]" "is_start st"
    "\<forall>l\<in>set body. ordinary l" "is_end en" by (rule well_formed_blockE)
  have ne: "\<not> is_start en" using b(4) start_not_end by blast
  show ?thesis using assms(1) b(2,4) ne
    by (simp add: b(1) scan_append scan_body[OF _ b(3)])
qed

lemma scan_Suc:
  "scan input (Suc n) ls s = map_sum shift_line id (scan input n ls s)"
  by (induction ls arbitrary: n s) auto

subsection \<open>Claims\<close>

lemma strip_terminator_eq:
  "CHR ''\<newline>'' \<notin> set d \<Longrightarrow> strip_terminator l = d \<longleftrightarrow> l = d \<or> l = d @ ''\<newline>''"
  unfolding strip_terminator_def
  by (cases l rule: rev_cases) auto

text \<open>
  Claim C8. A line is a start delimiter exactly when its content without the trailing
  terminator is the three characters \<^verbatim>\<open>/**\<close>, and an end delimiter exactly when
  that content is a space followed by \<^verbatim>\<open>*/\<close>. Every other line, whatever
  surrounds those characters, is an ordinary line.
\<close>

theorem delimiter_lines:
  "(is_start l \<longleftrightarrow> strip_terminator l = ''/**'') \<and>
   (is_end l \<longleftrightarrow> strip_terminator l = '' */'') \<and>
   (ordinary l \<longleftrightarrow> strip_terminator l \<noteq> ''/**'' \<and> strip_terminator l \<noteq> '' */'')"
  by (simp add: ordinary_def is_start_iff is_end_iff strip_terminator_eq)

lemma extract_docs_map:
  "extract_docs input ls =
     map_sum id (\<lambda>s. data s @ footer) (scan input 1 ls (start_state input))"
  by (simp add: extract_docs_def split: sum.splits)

lemma ordinary_not_start: "list_all ordinary g \<Longrightarrow> \<forall>l\<in>set g. \<not> is_start l"
  by (simp add: list_all_iff ordinary_def)

text \<open>
  Claim C1. When the input is one well-formed block of N lines, with only ordinary
  lines before and after it, the output is the header, those N lines as they are, one
  newline (the blank line after the block) and the footer.
\<close>

theorem faithful_capture:
  assumes "list_all ordinary pre" and "well_formed_block b" and "list_all ordinary post"
  shows "extract_docs input (pre @ b @ post) =
           Inr (header (pipeline input) @ concat b @ ''\<newline>'' @ footer)"
proof -
  let ?s = "start_state input"
  have out: "\<not> in_block ?s" by (simp add: start_state_def)
  have 1: "scan input n pre ?s = Inr ?s" for n
    using out ordinary_not_start[OF assms(1)] by (rule scan_gap)
  have 2: "scan input n b ?s =
      Inr (?s\<lparr>in_block := False, comment := concat b, data := data ?s @ concat b @ ''\<newline>''\<rparr>)" for n
    using out assms(2) by (rule scan_block)
  have 3: "scan input n post (?s\<lparr>in_block := False, comment := concat b, data := data ?s @ concat b @ ''\<newline>''\<rparr>)
     = Inr (?s\<lparr>in_block := False, comment := concat b, data := data ?s @ concat b @ ''\<newline>''\<rparr>)" for n
    using ordinary_not_start[OF assms(3)] by (intro scan_gap) simp_all
  show ?thesis
    by (simp add: extract_docs_map scan_append 1 2 3) (simp add: start_state_def)
qed

theorem faithful_capture_witness:
  "list_all ordinary [''line A\<newline>''] \<and>
   well_formed_block [''/**\<newline>'', '' * Hello.\<newline>'', '' */\<newline>''] \<and>
   list_all ordinary [''line B\<newline>''] \<and>
   extract_docs ''bar.mojom''
     [''line A\<newline>'', ''/**\<newline>'', '' * Hello.\<newline>'', '' */\<newline>'', ''line B\<newline>''] =
   Inr (header ''bar'' @ ''/**\<newline> * Hello.\<newline> */\<newline>\<newline>'' @ footer)"
proof -
  have a: "list_all ordinary [''line A\<newline>'']" by (simp add: ordinary_def is_start_iff is_end_iff)
  have b: "well_formed_block [''/**\<newline>'', '' * Hello.\<newline>'', '' */\<newline>'']"
    by (simp add: well_formed_block_def ordinary_def is_start_iff is_end_iff)
  have c: "list_all ordinary [''line B\<newline>'']" by (simp add: ordinary_def is_start_iff is_end_iff)
  have p: "pipeline ''bar.mojom'' = ''bar''" by (simp add: pipeline_def split_def)
  show ?thesis using a b c faithful_capture[OF a b c, of "''bar.mojom''"] by (simp add: p)
qed

lemma start_state_outside: "\<not> in_block (start_state input)"
  by (simp add: start_state_def)

lemma outside_afterE:
  assumes "outside_after input pre"
  obtains s where "scan input 1 pre (start_state input) = Inr s" "\<not> in_block s"
  using assms by (auto simp: outside_after_def split: sum.splits)

lemma scan_layout:
  assumes "\<not> in_block s"
    and "\<forall>(g, b)\<in>set gbs. list_all (\<lambda>l. \<not> is_start l) g \<and> well_formed_block b"
  shows "\<exists>c. scan input n (concat (map (\<lambda>(g, b). g @ b) gbs)) s =
           Inr (s\<lparr>comment := c, data := data s @ entries (map snd gbs)\<rparr>)"
  using assms
proof (induction gbs arbitrary: n s)
  case Nil
  have "s = s\<lparr>comment := comment s, data := data s\<rparr>" by simp
  then show ?case by (auto simp: entries_def intro: exI[of _ "comment s"])
next
  case (Cons gb gbs)
  obtain g b where gb: "gb = (g, b)" by (cases gb)
  from Cons.prems gb have g: "\<forall>l\<in>set g. \<not> is_start l" and b: "well_formed_block b"
    and rest: "\<forall>(g, b)\<in>set gbs. list_all (\<lambda>l. \<not> is_start l) g \<and> well_formed_block b"
    by (auto simp: list_all_iff)
  let ?s' = "s\<lparr>in_block := False, comment := concat b, data := data s @ concat b @ ''\<newline>''\<rparr>"
  have 1: "scan input m g s = Inr s" for m using Cons.prems(1) g by (rule scan_gap)
  have 2: "scan input m b s = Inr ?s'" for m using Cons.prems(1) b by (rule scan_block)
  have "\<not> in_block ?s'" by simp
  from Cons.IH[OF this rest] obtain c where
    3: "scan input (n + length g + length b) (concat (map (\<lambda>(g, b). g @ b) gbs)) ?s' =
          Inr (?s'\<lparr>comment := c, data := data ?s' @ entries (map snd gbs)\<rparr>)"
    by blast
  have "scan input n (concat (map (\<lambda>(g, b). g @ b) (gb # gbs))) s =
          Inr (s\<lparr>comment := c, data := data s @ entries (map snd (gb # gbs))\<rparr>)"
    using Cons.prems(1) by (simp add: gb scan_append 1 2 3 entries_def)
  then show ?case by blast
qed

lemma map_sum_swap: "map_sum id f (map_sum g id x) = map_sum g id (map_sum id f x)"
  by (cases x) simp_all

lemma scan_skip:
  "\<not> in_block s \<Longrightarrow> \<not> is_start l \<Longrightarrow> scan input n (l # rest) s = scan input (Suc n) rest s"
  by (simp add: not_in_block_upd)

lemmas delim_eval = is_start_iff is_end_iff ordinary_def well_formed_block_def

lemma pipeline_a: "pipeline ''a.mojom'' = ''a''"
  by (simp add: pipeline_def split_def)

lemma readlines_from_append:
  "a \<noteq> [] \<Longrightarrow> last a = CHR ''\<newline>'' \<Longrightarrow>
     readlines_from cur (a @ b) = readlines_from cur a @ readlines_from [] b"
  by (induction a arbitrary: cur) (auto split: if_splits)

lemma readlines_append:
  "a \<noteq> [] \<Longrightarrow> last a = CHR ''\<newline>'' \<Longrightarrow> readlines (a @ b) = readlines a @ readlines b"
  by (simp add: readlines_def readlines_from_append)

text \<open>
  Claim C5. When the input is a sequence of well-formed blocks, each after a stretch of
  lines none of which is a start delimiter, and ends with such a stretch, the output
  holds the text of every block, each followed by one newline, in the order of the
  input, between header and footer.
\<close>

theorem blocks_in_order:
  assumes "\<forall>(g, b)\<in>set gbs. list_all (\<lambda>l. \<not> is_start l) g \<and> well_formed_block b"
    and "list_all (\<lambda>l. \<not> is_start l) post"
  shows "extract_docs input (concat (map (\<lambda>(g, b). g @ b) gbs) @ post) =
           Inr (header (pipeline input) @ entries (map snd gbs) @ footer)"
proof -
  let ?s = "start_state input"
  from scan_layout[OF start_state_outside assms(1), of input "Suc 0"] obtain c where
    1: "scan input (Suc 0) (concat (map (\<lambda>(g, b). g @ b) gbs)) ?s =
          Inr (?s\<lparr>comment := c, data := data ?s @ entries (map snd gbs)\<rparr>)" by blast
  have 2: "scan input m post (?s\<lparr>comment := c, data := data ?s @ entries (map snd gbs)\<rparr>) =
          Inr (?s\<lparr>comment := c, data := data ?s @ entries (map snd gbs)\<rparr>)" for m
    using assms(2) by (intro scan_gap) (simp_all add: start_state_def list_all_iff)
  show ?thesis
    by (simp add: extract_docs_map scan_append 1 2) (simp add: start_state_def)
qed

theorem blocks_in_order_witness:
  "list_all (\<lambda>l. \<not> is_start l) [''x\<newline>''] \<and>
   well_formed_block [''/**\<newline>'', '' * A\<newline>'', '' */\<newline>''] \<and>
   well_formed_block [''/**\<newline>'', '' */\<newline>''] \<and>
   list_all (\<lambda>l. \<not> is_start l) ['' */\<newline>''] \<and>
   extract_docs ''a.mojom''
     [''x\<newline>'', ''/**\<newline>'', '' * A\<newline>'', '' */\<newline>'', ''/**\<newline>'', '' */\<newline>'', '' */\<newline>''] =
   Inr (header ''a'' @ ''/**\<newline> * A\<newline> */\<newline>\<newline>'' @ ''/**\<newline> */\<newline>\<newline>'' @ footer)"
proof -
  let ?b1 = "[''/**\<newline>'', '' * A\<newline>'', '' */\<newline>'']"
  let ?b2 = "[''/**\<newline>'', '' */\<newline>'']"
  have h1: "\<forall>(g, b)\<in>set [([''x\<newline>''], ?b1), ([], ?b2)].
              list_all (\<lambda>l. \<not> is_start l) g \<and> well_formed_block b"
    by (simp add: delim_eval)
  have h2: "list_all (\<lambda>l. \<not> is_start l) ['' */\<newline>'']" by (simp add: delim_eval)
  show ?thesis
    using h1 h2 blocks_in_order[OF h1 h2, of "''a.mojom''"]
    by (simp add: pipeline_a entries_def)
qed

text \<open>
  Claim C4. When the lines before the last start delimiter are scanned without error
  and leave no block open, and only ordinary lines follow that start delimiter, the
  scan ends without error and the output is the one the input has without the open
  block: nothing of the block is written.
\<close>

theorem unterminated_block_discarded:
  assumes "outside_after input pre" and "is_start st" and "list_all ordinary body"
  shows "extract_docs input (pre @ st # body) = extract_docs input pre \<and>
         (\<exists>d. extract_docs input pre = Inr d)"
proof -
  from assms(1) obtain s where s: "scan input 1 pre (start_state input) = Inr s" "\<not> in_block s"
    by (rule outside_afterE)
  have "scan input m body (s\<lparr>in_block := True, comment := st\<rparr>) =
          Inr (s\<lparr>in_block := True, comment := st @ concat body\<rparr>)" for m
    using scan_body[of "s\<lparr>in_block := True, comment := st\<rparr>" body input m] assms(3)
    by (simp add: list_all_iff)
  then show ?thesis using s assms(2)
    by (simp add: extract_docs_map scan_append)
qed

theorem unterminated_block_discarded_witness:
  "outside_after ''a.mojom'' [''/**\<newline>'', '' */\<newline>''] \<and>
   is_start ''/**\<newline>'' \<and>
   list_all ordinary ['' * lost\<newline>''] \<and>
   extract_docs ''a.mojom'' [''/**\<newline>'', '' */\<newline>'', ''/**\<newline>'', '' * lost\<newline>''] =
     Inr (header ''a'' @ ''/**\<newline> */\<newline>\<newline>'' @ footer)"
proof -
  have h1: "outside_after ''a.mojom'' [''/**\<newline>'', '' */\<newline>'']"
    by (simp add: outside_after_def start_state_def delim_eval)
  have h2: "is_start ''/**\<newline>''" by (simp add: delim_eval)
  have h3: "list_all ordinary ['' * lost\<newline>'']" by (simp add: delim_eval)
  have e: "extract_docs ''a.mojom'' [''/**\<newline>'', '' */\<newline>''] =
     Inr (header ''a'' @ ''/**\<newline> */\<newline>\<newline>'' @ footer)"
    by (simp add: extract_docs_def start_state_def delim_eval pipeline_a)
  show ?thesis
    using h1 h2 h3 unterminated_block_discarded[OF h1 h2 h3] e by simp
qed

text \<open>
  Claim C6. An end delimiter met while no block is open leaves the three variables as
  they are, so it adds nothing to the output and raises nothing; the run goes on as
  without the line, and an error raised further down is the same error, its line number
  counting the line.
\<close>

theorem stray_end_ignored:
  assumes "outside_after input pre" and "is_end e"
  shows "scan input 1 (pre @ [e]) (start_state input) = scan input 1 pre (start_state input) \<and>
         extract_docs input (pre @ e # post) =
           map_sum shift_line id (extract_docs input (pre @ post))"
proof -
  from assms(1) obtain s where s: "scan input 1 pre (start_state input) = Inr s" "\<not> in_block s"
    by (rule outside_afterE)
  have ns: "\<not> is_start e" using assms(2) start_not_end by blast
  have "scan input m (e # post) s = map_sum shift_line id (scan input m post s)" for m
    using scan_skip[OF s(2) ns] by (simp add: scan_Suc)
  moreover have "scan input m [e] s = Inr s" for m
    using scan_skip[OF s(2) ns, of input m "[]"] by simp
  ultimately show ?thesis using s
    by (simp add: extract_docs_map scan_append map_sum_swap del: scan.simps)
qed

theorem stray_end_ignored_witness:
  "outside_after ''a.mojom'' [''x\<newline>''] \<and>
   is_end '' */\<newline>'' \<and>
   extract_docs ''a.mojom'' [''x\<newline>'', '' */\<newline>'', ''/**\<newline>'', '' */\<newline>''] =
     Inr (header ''a'' @ ''/**\<newline> */\<newline>\<newline>'' @ footer)"
proof -
  have h1: "outside_after ''a.mojom'' [''x\<newline>'']"
    by (simp add: outside_after_def start_state_def delim_eval)
  have h2: "is_end '' */\<newline>''" by (simp add: delim_eval)
  have e: "extract_docs ''a.mojom'' [''x\<newline>'', ''/**\<newline>'', '' */\<newline>''] =
     Inr (header ''a'' @ ''/**\<newline> */\<newline>\<newline>'' @ footer)"
    by (simp add: extract_docs_def start_state_def delim_eval pipeline_a)
  show ?thesis
    using h1 h2 stray_end_ignored[OF h1 h2, of "[''/**\<newline>'', '' */\<newline>'']"] e by simp
qed

text \<open>
  Claim C7. A line met while no block is open is never written when it is met,
  whatever it holds. A line outside every block is such a line that is not a start
  delimiter, an ordinary line or a stray end delimiter: it leaves the three variables
  as they are, at every point of the scan, and the run gives the output it gives
  without the line (an error raised further down counts the line in its number). A
  start delimiter met while no block is open is not outside a block: it opens the
  block whose text it begins, and nothing else changes when it is met; when that block
  is never closed, the output is the one of the lines before it.
\<close>

theorem line_outside_block_ignored:
  "(\<forall>(s::state) n. \<not> in_block s \<longrightarrow>
      (\<exists>s'. scan input n [l] s = Inr s' \<and> data s' = data s)) \<and>
   (\<not> is_start l \<longrightarrow>
      (\<forall>(s::state) n rest. \<not> in_block s \<longrightarrow>
         scan input n (l # rest) s = scan input (Suc n) rest s) \<and>
      (outside_after input pre \<longrightarrow>
         extract_docs input (pre @ l # post) =
           map_sum shift_line id (extract_docs input (pre @ post)))) \<and>
   (is_start l \<longrightarrow>
      (\<forall>(s::state) n rest. \<not> in_block s \<longrightarrow>
         scan input n (l # rest) s =
           scan input (Suc n) rest (s\<lparr>in_block := True, comment := l\<rparr>)) \<and>
      (outside_after input pre \<and> list_all ordinary body \<longrightarrow>
         extract_docs input (pre @ l # body) = extract_docs input pre))"
proof (intro conjI allI impI)
  fix s :: state and n assume "\<not> in_block s"
  then show "\<exists>s'. scan input n [l] s = Inr s' \<and> data s' = data s"
    by (simp add: not_in_block_upd)
next
  fix s :: state and n rest assume "\<not> is_start l" and "\<not> in_block s"
  then show "scan input n (l # rest) s = scan input (Suc n) rest s"
    by (simp add: not_in_block_upd)
next
  assume ns: "\<not> is_start l" and "outside_after input pre"
  then obtain s where s: "scan input 1 pre (start_state input) = Inr s" "\<not> in_block s"
    by (auto elim: outside_afterE)
  have "scan input m (l # post) s = map_sum shift_line id (scan input m post s)" for m
    using scan_skip[OF s(2) ns] by (simp add: scan_Suc)
  then show "extract_docs input (pre @ l # post) =
              map_sum shift_line id (extract_docs input (pre @ post))"
    using s by (simp add: extract_docs_map scan_append map_sum_swap del: scan.simps)
next
  fix s :: state and n rest assume "is_start l" and "\<not> in_block s"
  then show "scan input n (l # rest) s =
           scan input (Suc n) rest (s\<lparr>in_block := True, comment := l\<rparr>)"
    by simp
next
  assume st: "is_start l" and "outside_after input pre \<and> list_all ordinary body"
  then obtain s where s: "scan input 1 pre (start_state input) = Inr s" "\<not> in_block s"
    and body: "list_all ordinary body"
    by (auto elim: outside_afterE)
  have "scan input m body (s\<lparr>in_block := True, comment := l\<rparr>) =
          Inr (s\<lparr>in_block := True, comment := l @ concat body\<rparr>)" for m
    using scan_body[of "s\<lparr>in_block := True, comment := l\<rparr>" body input m] body
    by (simp add: list_all_iff)
  then show "extract_docs input (pre @ l # body) = extract_docs input pre"
    using s st by (simp add: extract_docs_map scan_append)
qed

theorem line_outside_block_ignored_witness:
  "\<not> is_start ''int x;\<newline>'' \<and>
   outside_after ''a.mojom'' [''/**\<newline>'', '' */\<newline>''] \<and>
   extract_docs ''a.mojom'' [''/**\<newline>'', '' */\<newline>'', ''int x;\<newline>'', ''/**\<newline>'', ''/**\<newline>''] =
     Inl (SyntaxError ''Expected end of comment'' (''a.mojom'', 5, 1, ''/**\<newline>''))"
proof -
  have h1: "\<not> is_start ''int x;\<newline>''" by (simp add: delim_eval)
  have h2: "outside_after ''a.mojom'' [''/**\<newline>'', '' */\<newline>'']"
    by (simp add: outside_after_def start_state_def delim_eval)
  have e: "extract_docs ''a.mojom'' [''/**\<newline>'', '' */\<newline>'', ''/**\<newline>'', ''/**\<newline>''] =
     Inl (SyntaxError ''Expected end of comment'' (''a.mojom'', 4, 1, ''/**\<newline>''))"
    by (simp add: extract_docs_def start_state_def delim_eval)
  from line_outside_block_ignored[where l = "''int x;\<newline>''" and input = "''a.mojom''"
      and pre = "[''/**\<newline>'', '' */\<newline>'']" and post = "[''/**\<newline>'', ''/**\<newline>'']"] h1 h2
  have "extract_docs ''a.mojom'' ([''/**\<newline>'', '' */\<newline>''] @ ''int x;\<newline>'' # [''/**\<newline>'', ''/**\<newline>'']) =
          map_sum shift_line id (extract_docs ''a.mojom'' ([''/**\<newline>'', '' */\<newline>''] @ [''/**\<newline>'', ''/**\<newline>'']))"
    by blast
  then show ?thesis using h1 h2 e by simp
qed

text \<open>
  An example of the last part: the start delimiter of a block that is closed later is
  written with that block, as its first line.
\<close>

lemma start_line_opens_block_example:
  "outside_after ''a.mojom'' [] \<and>
   extract_docs ''a.mojom'' [''/**\<newline>'', '' */\<newline>''] =
     Inr (header ''a'' @ ''/**\<newline> */\<newline>\<newline>'' @ footer)"
  by (simp add: outside_after_def extract_docs_def start_state_def delim_eval pipeline_a)

text \<open>
  Claim C10. The two delimiters are recognised without a terminator. When the text of
  the file ends with a newline and leaves a block open at its end, wherever that block
  starts and whatever blocks come before it, and \<^verbatim>\<open> */\<close> is appended without
  terminator, \<^verbatim>\<open>readlines\<close> gives that text as the last line, the block is closed and
  written after what the lines before it have produced (\<open>d\<close>), and exactly one newline
  separates it from the footer.
\<close>

theorem last_line_without_terminator:
  assumes "text \<noteq> []" and "last text = CHR ''\<newline>''"
    and "readlines text = pre @ st # body"
    and "outside_after input pre" and "extract_docs input pre = Inr (d @ footer)"
    and "is_start st" and "list_all ordinary body"
  shows "is_start ''/**'' \<and> is_end '' */'' \<and>
         readlines (text @ '' */'') = readlines text @ ['' */''] \<and>
         main input (text @ '' */'') out =
           (Inr 0, out @ d @ st @ concat body @ '' */'' @ ''\<newline>'' @ footer)"
proof -
  have rl: "readlines (text @ '' */'') = readlines text @ ['' */'']"
    using assms(1,2) by (simp add: readlines_append) (simp add: readlines_def)
  have wf: "well_formed_block (st # body @ ['' */''])"
    using assms(6,7) by (simp add: well_formed_block_def is_end_iff)
  from assms(4) obtain s where s: "scan input 1 pre (start_state input) = Inr s" "\<not> in_block s"
    by (rule outside_afterE)
  from assms(5) s(1) have d: "data s = d" by (simp add: extract_docs_def)
  have 2: "scan input n (st # body @ ['' */'']) s =
      Inr (s\<lparr>in_block := False, comment := concat (st # body @ ['' */'']),
             data := data s @ concat (st # body @ ['' */'']) @ ''\<newline>''\<rparr>)" for n
    using s(2) wf by (rule scan_block)
  have "scan input 1 (pre @ (st # body @ ['' */''])) (start_state input) =
      Inr (s\<lparr>in_block := False, comment := concat (st # body @ ['' */'']),
             data := data s @ concat (st # body @ ['' */'']) @ ''\<newline>''\<rparr>)"
    unfolding scan_append s(1) by (simp only: sum.case 2)
  then have "extract_docs input (readlines (text @ '' */'')) =
          Inr (d @ st @ concat body @ '' */'' @ ''\<newline>'' @ footer)"
    by (simp add: rl assms(3) extract_docs_map d del: scan.simps)
  then show ?thesis using rl by (simp add: main_def is_start_iff is_end_iff)
qed

theorem last_line_without_terminator_witness:
  "''/**\<newline> */\<newline>/**\<newline> * A\<newline>'' \<noteq> [] \<and>
   last ''/**\<newline> */\<newline>/**\<newline> * A\<newline>'' = CHR ''\<newline>'' \<and>
   readlines ''/**\<newline> */\<newline>/**\<newline> * A\<newline>'' =
     [''/**\<newline>'', '' */\<newline>''] @ ''/**\<newline>'' # ['' * A\<newline>''] \<and>
   outside_after ''a.mojom'' [''/**\<newline>'', '' */\<newline>''] \<and>
   extract_docs ''a.mojom'' [''/**\<newline>'', '' */\<newline>''] =
     Inr ((header ''a'' @ ''/**\<newline> */\<newline>\<newline>'') @ footer) \<and>
   is_start ''/**\<newline>'' \<and> list_all ordinary ['' * A\<newline>''] \<and>
   main ''a.mojom'' ''/**\<newline> */\<newline>/**\<newline> * A\<newline> */'' [] =
     (Inr 0, header ''a'' @ ''/**\<newline> */\<newline>\<newline>'' @ ''/**\<newline> * A\<newline> */\<newline>'' @ footer)"
proof -
  let ?text = "''/**\<newline> */\<newline>/**\<newline> * A\<newline>''"
  let ?pre = "[''/**\<newline>'', '' */\<newline>'']"
  have h1: "?text \<noteq> []" by simp
  have h2: "last ?text = CHR ''\<newline>''" by simp
  have h3: "readlines ?text = ?pre @ ''/**\<newline>'' # ['' * A\<newline>'']"
    by (simp add: readlines_def)
  have h4: "outside_after ''a.mojom'' ?pre"
    by (simp add: outside_after_def start_state_def delim_eval)
  have h5: "extract_docs ''a.mojom'' ?pre = Inr ((header ''a'' @ ''/**\<newline> */\<newline>\<newline>'') @ footer)"
    by (simp add: extract_docs_def start_state_def delim_eval pipeline_a)
  have h6: "is_start ''/**\<newline>''" by (simp add: delim_eval)
  have h7: "list_all ordinary ['' * A\<newline>'']" by (simp add: delim_eval)
  show ?thesis
    using h1 h2 h3 h4 h5 h6 h7
      last_line_without_terminator[OF h1 h2 h3 h4 h5 h6 h7, of "[]"]
    by simp
qed

subsection \<open>The derived name\<close>

lemma split_from_no_sep: "sep \<notin> set s \<Longrightarrow> split_from sep cur s = [cur @ s]"
  by (induction s arbitrary: cur) auto

lemma split_from_ne: "split_from sep cur s \<noteq> []"
  by (induction s arbitrary: cur) auto

lemma last_split_from_sep:
  "d \<noteq> [] \<Longrightarrow> last d = sep \<Longrightarrow>
     last (split_from sep cur (d @ base)) = last (split_from sep [] base)"
  by (induction d arbitrary: cur) (auto simp: split_from_ne split: if_splits)

lemma last_split:
  assumes "d = [] \<or> last d = CHR ''/''" and "CHR ''/'' \<notin> set base"
  shows "last (split CHR ''/'' (d @ base)) = base"
proof (cases "d = []")
  case True
  then show ?thesis using assms(2) by (simp add: split_def split_from_no_sep)
next
  case False
  then have "last d = CHR ''/''" using assms(1) by simp
  then show ?thesis using False assms(2)
    by (simp add: split_def last_split_from_sep split_from_no_sep)
qed

lemma replace_absent:
  "old \<noteq> [] \<Longrightarrow> \<not> sublist old s \<Longrightarrow> replace old new s = s"
proof (induction s)
  case Nil
  then show ?case by simp
next
  case (Cons c cs)
  from Cons.prems(2) have np: "\<not> prefix old (c # cs)" and ns: "\<not> sublist old cs"
    by (simp_all add: sublist_Cons_right)
  have "replace old new (c # cs) = c # replace old new cs"
    using Cons.prems(1) np by (simp only: replace.simps if_False)
  then show ?case using Cons.IH[OF Cons.prems(1) ns] by simp
qed

lemma mojom_prefix_straddle:
  assumes "prefix ''.mojom'' ((c # cs) @ ''.mojom'')"
  shows "prefix ''.mojom'' (c # cs)"
proof -
  from assms have c: "c = CHR ''.''" by simp
  from assms have p: "prefix ''mojom'' (cs @ ''.mojom'')" by (simp add: c)
  have "prefix ''mojom'' cs"
  proof (rule ccontr)
    assume n: "\<not> prefix ''mojom'' cs"
    from p n obtain us where us: "''mojom'' = cs @ us" "prefix us ''.mojom''"
      unfolding prefix_append by blast
    from n us(1) have "us \<noteq> []" by auto
    with us(2) obtain vs where "us = CHR ''.'' # vs" by (cases us) auto
    then have "CHR ''.'' \<in> set (cs @ us)" by simp
    then have "CHR ''.'' \<in> set ''mojom''" using us(1) by simp
    then show False by simp
  qed
  then show ?thesis by (simp add: c)
qed

lemma replace_suffix_only:
  "\<not> sublist ''.mojom'' stem \<Longrightarrow> replace ''.mojom'' [] (stem @ ''.mojom'') = stem"
proof (induction stem)
  case Nil
  then show ?case by simp
next
  case (Cons c cs)
  from Cons.prems have np0: "\<not> prefix ''.mojom'' (c # cs)" and ns: "\<not> sublist ''.mojom'' cs"
    by (simp_all add: sublist_Cons_right)
  have np: "\<not> prefix ''.mojom'' (c # cs @ ''.mojom'')"
    using mojom_prefix_straddle[of c cs] np0 by auto
  have ne: "''.mojom'' \<noteq> []" by simp
  have "replace ''.mojom'' [] (c # cs @ ''.mojom'') = c # replace ''.mojom'' [] (cs @ ''.mojom'')"
    using np ne by (simp only: replace.simps if_False)
  then show ?case using Cons.IH[OF ns] by simp
qed

text \<open>
  Claim C3, amended. The name in the header is the part of the path after the last
  \<^verbatim>\<open>/\<close> with every occurrence of \<^verbatim>\<open>.mojom\<close> removed, found from left to
  right. A base name without \<^verbatim>\<open>.mojom\<close> is the name as it is. When the base name
  is a stem without \<^verbatim>\<open>.mojom\<close> followed by \<^verbatim>\<open>.mojom\<close>, the name is the stem, the
  base name without its suffix: \<^verbatim>\<open>a/b/foo.mojom\<close> gives \<^verbatim>\<open>foo\<close>.
\<close>

theorem derived_name:
  assumes "d = [] \<or> last d = CHR ''/''" and "CHR ''/'' \<notin> set base"
  shows "pipeline (d @ base) = replace ''.mojom'' [] base \<and>
         (\<not> sublist ''.mojom'' base \<longrightarrow> pipeline (d @ base) = base) \<and>
         (\<forall>stem. base = stem @ ''.mojom'' \<and> \<not> sublist ''.mojom'' stem \<longrightarrow>
            pipeline (d @ base) = stem \<and> strip_suffix ''.mojom'' base = stem)"
proof -
  have p: "pipeline (d @ base) = replace ''.mojom'' [] base"
    using assms by (simp add: pipeline_def last_split)
  have a: "pipeline (d @ base) = base" if "\<not> sublist ''.mojom'' base"
    using that by (simp add: p replace_absent)
  have b: "pipeline (d @ base) = stem \<and> strip_suffix ''.mojom'' base = stem"
    if "base = stem @ ''.mojom''" "\<not> sublist ''.mojom'' stem" for stem
  proof -
    have "replace ''.mojom'' [] base = stem"
      unfolding that(1) using that(2) by (rule replace_suffix_only)
    moreover have "strip_suffix ''.mojom'' base = stem"
      by (simp add: that(1) strip_suffix_def suffix_def)
    ultimately show ?thesis using p by simp
  qed
  show ?thesis using p a b by blast
qed

theorem derived_name_witness:
  "last ''a/b/'' = CHR ''/'' \<and> CHR ''/'' \<notin> set ''foo.mojom'' \<and> \<not> sublist ''.mojom'' ''foo'' \<and>
   pipeline ''a/b/foo.mojom'' = ''foo'' \<and> strip_suffix ''.mojom'' ''foo.mojom'' = ''foo''"
proof -
  have h1: "''a/b/'' = [] \<or> last ''a/b/'' = CHR ''/''" by simp
  have h2: "CHR ''/'' \<notin> set ''foo.mojom''" by simp
  have h3: "\<not> sublist ''.mojom'' ''foo''" by (simp add: sublist_Cons_right)
  have h4: "''foo.mojom'' = ''foo'' @ ''.mojom''" by simp
  from derived_name[OF h1 h2] h3 h4
  have "pipeline (''a/b/'' @ ''foo.mojom'') = ''foo'' \<and> strip_suffix ''.mojom'' ''foo.mojom'' = ''foo''"
    by blast
  then show ?thesis using h2 h3 by simp
qed

text \<open>
  Claim C3 as stated fails where \<^verbatim>\<open>.mojom\<close> occurs in the base name before the
  suffix: \<^verbatim>\<open>replace\<close> removes that occurrence too, so \<^verbatim>\<open>a/b/foo.mojom.mojom\<close>
  gives \<^verbatim>\<open>foo\<close>, and the base name without its suffix is \<^verbatim>\<open>foo.mojom\<close>.
\<close>

theorem derived_name_counterexample:
  "pipeline ''a/b/foo.mojom.mojom'' = ''foo'' \<and>
   last (split CHR ''/'' ''a/b/foo.mojom.mojom'') = ''foo.mojom.mojom'' \<and>
   strip_suffix ''.mojom'' ''foo.mojom.mojom'' = ''foo.mojom'' \<and>
   pipeline ''a/b/foo.mojom.mojom'' \<noteq> strip_suffix ''.mojom'' (last (split CHR ''/'' ''a/b/foo.mojom.mojom''))"
  by (simp add: pipeline_def split_def strip_suffix_def suffix_def)

subsection \<open>The error and the inputs without a block\<close>

lemma open_before_0: "open_before b ls 0 \<longleftrightarrow> b"
  by (simp add: open_before_alt)

lemma open_before_Suc:
  "open_before b (l # ls) (Suc j) \<longleftrightarrow>
     open_before (if is_start l then True else if is_end l then False else b) ls j"
  using start_not_end[of l]
  by (auto simp: open_before_alt All_less_Suc2 Ex_less_Suc2)

lemma nested_start_open: "nested_start ls j \<longleftrightarrow> j < length ls \<and> is_start (ls ! j) \<and> open_before False ls j"
  by (simp add: nested_start_alt open_before_alt)


lemma first_nested_0: "first_nested b (l # ls) 0 \<longleftrightarrow> is_start l \<and> b"
  by (auto simp: first_nested_alt open_before_0)

lemma first_nested_Suc:
  "first_nested b (l # ls) (Suc j) \<longleftrightarrow>
     \<not> (is_start l \<and> b) \<and>
     first_nested (if is_start l then True else if is_end l then False else b) ls j"
  by (simp add: first_nested_alt open_before_Suc open_before_0 All_less_Suc2 del: One_nat_def) blast

lemma ex_nat_split: "(\<exists>j. Q j) \<longleftrightarrow> Q 0 \<or> (\<exists>j. Q (Suc j))"
  by (metis not0_implies_Suc)

lemma scan_error_iff:
  "scan input n ls s = Inl e \<longleftrightarrow>
     (\<exists>j. first_nested (in_block s) ls j \<and>
          e = SyntaxError ''Expected end of comment'' (input, n + j, 1, ls ! j))"
proof (induction ls arbitrary: n s)
  case Nil
  then show ?case by (simp add: first_nested_alt)
next
  case (Cons l ls)
  show ?case
    apply (subst ex_nat_split)
    apply (simp only: first_nested_0 first_nested_Suc nth_Cons_0 nth_Cons_Suc add_0_right add_Suc_right)
    using start_not_end[of l]
    apply (cases "is_start l"; cases "in_block s"; cases "is_end l")
           apply (simp_all add: Cons.IH)
    apply auto
    done
qed


lemma first_nested_False:
  "first_nested False ls j \<longleftrightarrow> nested_start ls j \<and> (\<forall>j'<j. \<not> nested_start ls j')"
  by (auto simp: first_nested_alt nested_start_open)

lemma nested_start_least:
  "(\<exists>j. nested_start ls j) \<longleftrightarrow> (\<exists>j. first_nested False ls j)"
  unfolding first_nested_False by (rule exists_least_iff)

lemma extract_docs_error_iff:
  "extract_docs input ls = Inl e \<longleftrightarrow>
     (\<exists>j. first_nested False ls j \<and>
          e = SyntaxError ''Expected end of comment'' (input, Suc j, 1, ls ! j))"
proof -
  have "extract_docs input ls = Inl e \<longleftrightarrow> scan input 1 ls (start_state input) = Inl e"
    by (auto simp: extract_docs_def split: sum.splits)
  then show ?thesis
    by (simp add: scan_error_iff start_state_outside)
qed

text \<open>
  Claim C2. The scan fails exactly when some start delimiter follows an earlier start
  delimiter with no end delimiter between them. The error then names the source, the
  number (from 1) of the first such line, column 1 and the text of that line, and
  \<^verbatim>\<open>main\<close> leaves the output stream as it was.
\<close>

theorem nested_start_error:
  "((\<exists>e. extract_docs input ls = Inl e) \<longleftrightarrow> (\<exists>j. nested_start ls j)) \<and>
   (\<forall>e. extract_docs input ls = Inl e \<longrightarrow>
      (\<exists>j. nested_start ls j \<and> (\<forall>j'<j. \<not> nested_start ls j') \<and>
           e = SyntaxError ''Expected end of comment'' (input, Suc j, 1, ls ! j))) \<and>
   (\<forall>e. extract_docs input (readlines text) = Inl e \<longrightarrow> main input text out = (Inl e, out))"
proof (intro conjI allI impI)
  show "(\<exists>e. extract_docs input ls = Inl e) \<longleftrightarrow> (\<exists>j. nested_start ls j)"
    unfolding nested_start_least extract_docs_error_iff by blast
next
  fix e assume "extract_docs input ls = Inl e"
  then show "\<exists>j. nested_start ls j \<and> (\<forall>j'<j. \<not> nested_start ls j') \<and>
           e = SyntaxError ''Expected end of comment'' (input, Suc j, 1, ls ! j)"
    unfolding extract_docs_error_iff first_nested_False by blast
next
  fix e assume "extract_docs input (readlines text) = Inl e"
  then show "main input text out = (Inl e, out)" by (simp add: main_def)
qed

theorem nested_start_error_witness:
  "extract_docs ''a.mojom'' [''/**\<newline>'', ''x\<newline>'', ''/**\<newline>''] =
     Inl (SyntaxError ''Expected end of comment'' (''a.mojom'', 3, 1, ''/**\<newline>'')) \<and>
   (\<exists>j. nested_start [''/**\<newline>'', ''x\<newline>'', ''/**\<newline>''] j) \<and>
   main ''a.mojom'' ''/**\<newline>x\<newline>/**\<newline>'' ''kept'' =
     (Inl (SyntaxError ''Expected end of comment'' (''a.mojom'', 3, 1, ''/**\<newline>'')), ''kept'')"
proof -
  let ?ls = "[''/**\<newline>'', ''x\<newline>'', ''/**\<newline>'']"
  let ?e = "SyntaxError ''Expected end of comment'' (''a.mojom'', 3, 1, ''/**\<newline>'')"
  have h: "extract_docs ''a.mojom'' ?ls = Inl ?e"
    by (simp add: extract_docs_def start_state_def delim_eval)
  have r: "readlines ''/**\<newline>x\<newline>/**\<newline>'' = ?ls" by (simp add: readlines_def)
  note t = nested_start_error[of "''a.mojom''" ?ls "''/**\<newline>x\<newline>/**\<newline>''" "''kept''"]
  from t h have 1: "\<exists>j. nested_start ?ls j" by blast
  from t h r have 2: "main ''a.mojom'' ''/**\<newline>x\<newline>/**\<newline>'' ''kept'' = (Inl ?e, ''kept'')" by simp
  show ?thesis using h 1 2 by blast
qed

lemma no_pairs_Cons:
  "no_pairs (l # ls) \<longleftrightarrow> (is_start l \<longrightarrow> (\<forall>x\<in>set ls. \<not> is_end x)) \<and> no_pairs ls"
  by (auto simp: no_pairs_alt All_less_Suc2 all_set_conv_all_nth)

lemma no_pairs_data:
  "no_pairs ls \<Longrightarrow> (in_block s \<longrightarrow> (\<forall>x\<in>set ls. \<not> is_end x)) \<Longrightarrow>
     scan input n ls s = Inr s' \<Longrightarrow> data s' = data s"
proof (induction ls arbitrary: n s)
  case Nil
  then show ?case by simp
next
  case (Cons l ls)
  from Cons.prems(1) have np: "no_pairs ls" and st: "is_start l \<Longrightarrow> \<forall>x\<in>set ls. \<not> is_end x"
    by (simp_all add: no_pairs_Cons)
  show ?case
  proof (cases "is_start l")
    case True
    with Cons.prems(3) have nb: "\<not> in_block s"
      and sc: "scan input (Suc n) ls (s\<lparr>in_block := True, comment := l\<rparr>) = Inr s'"
      by (auto split: if_splits)
    from Cons.IH[OF np _ sc] st[OF True] show ?thesis by simp
  next
    case False
    show ?thesis
    proof (cases "is_end l")
      case True
      with Cons.prems(2) have nb: "\<not> in_block s" by auto
      with Cons.prems(3) False True have sc: "scan input (Suc n) ls s = Inr s'"
        by (simp add: not_in_block_upd)
      from Cons.IH[OF np _ sc] nb show ?thesis by simp
    next
      case nend: False
      with Cons.prems(3) False have
        sc: "scan input (Suc n) ls (if in_block s then s\<lparr>comment := comment s @ l\<rparr> else s) = Inr s'"
        by simp
      from Cons.IH[OF np _ sc] Cons.prems(2) show ?thesis by (simp split: if_splits)
    qed
  qed
qed

lemma no_pairs_error:
  "no_pairs ls \<Longrightarrow> (in_block s \<longrightarrow> (\<forall>x\<in>set ls. \<not> is_end x)) \<Longrightarrow>
     (\<exists>e. scan input n ls s = Inl e) \<longleftrightarrow>
       2 \<le> (if in_block s then 1 else 0) + length (filter is_start ls)"
proof (induction ls arbitrary: n s)
  case Nil
  then show ?case by simp
next
  case (Cons l ls)
  from Cons.prems(1) have np: "no_pairs ls" and st: "is_start l \<Longrightarrow> \<forall>x\<in>set ls. \<not> is_end x"
    by (simp_all add: no_pairs_Cons)
  show ?case
  proof (cases "is_start l")
    case True
    show ?thesis
    proof (cases "in_block s")
      case True
      with \<open>is_start l\<close> show ?thesis by simp
    next
      case False
      from Cons.IH[OF np, of "s\<lparr>in_block := True, comment := l\<rparr>" "Suc n"] st[OF True] False True
      show ?thesis by simp
    qed
  next
    case False
    show ?thesis
    proof (cases "is_end l")
      case True
      with Cons.prems(2) have nb: "\<not> in_block s" by auto
      from Cons.IH[OF np, of s "Suc n"] nb False True show ?thesis
        by (simp add: not_in_block_upd)
    next
      case nend: False
      from Cons.IH[OF np, of "if in_block s then s\<lparr>comment := comment s @ l\<rparr> else s" "Suc n"]
        Cons.prems(2) False nend
      show ?thesis by (simp split: if_splits)
    qed
  qed
qed

text \<open>
  Claim C9, amended. When no start delimiter is followed later by an end delimiter, the
  output is the header followed at once by the footer exactly when the input has at
  most one start delimiter.
\<close>

theorem no_block_no_content:
  assumes "no_pairs ls"
  shows "extract_docs input ls = Inr (header (pipeline input) @ footer) \<longleftrightarrow>
           length (filter is_start ls) \<le> 1"
proof -
  let ?s = "start_state input"
  have e: "(\<exists>e. scan input 1 ls ?s = Inl e) \<longleftrightarrow> 2 \<le> length (filter is_start ls)"
    using no_pairs_error[OF assms, of ?s input 1] by (simp add: start_state_outside)
  show ?thesis
  proof
    assume "extract_docs input ls = Inr (header (pipeline input) @ footer)"
    then have "\<not> (\<exists>e. scan input 1 ls ?s = Inl e)"
      by (auto simp: extract_docs_def split: sum.splits)
    with e show "length (filter is_start ls) \<le> 1" by simp
  next
    assume "length (filter is_start ls) \<le> 1"
    with e have "\<not> (\<exists>e. scan input 1 ls ?s = Inl e)" by simp
    then obtain s' where s': "scan input 1 ls ?s = Inr s'"
      by (cases "scan input 1 ls ?s") auto
    from no_pairs_data[OF assms _ s'] have "data s' = header (pipeline input)"
      by (simp add: start_state_def)
    with s' show "extract_docs input ls = Inr (header (pipeline input) @ footer)"
      by (simp add: extract_docs_def)
  qed
qed

theorem no_block_no_content_witness:
  "no_pairs ['' */\<newline>'', ''x\<newline>'', ''/**\<newline>'', '' * open\<newline>''] \<and>
   length (filter is_start ['' */\<newline>'', ''x\<newline>'', ''/**\<newline>'', '' * open\<newline>'']) \<le> 1 \<and>
   extract_docs ''a.mojom'' ['' */\<newline>'', ''x\<newline>'', ''/**\<newline>'', '' * open\<newline>''] =
     Inr (header ''a'' @ footer)"
proof -
  let ?ls = "['' */\<newline>'', ''x\<newline>'', ''/**\<newline>'', '' * open\<newline>'']"
  have h1: "no_pairs ?ls" by (simp add: no_pairs_Cons delim_eval) (simp add: no_pairs_alt)
  have h2: "length (filter is_start ?ls) \<le> 1" by (simp add: delim_eval)
  from no_block_no_content[OF h1, of "''a.mojom''"] h2
  have "extract_docs ''a.mojom'' ?ls = Inr (header (pipeline ''a.mojom'') @ footer)" by blast
  then show ?thesis using h1 h2 by (simp add: pipeline_a)
qed

text \<open>
  Claim C9 as stated fails on two start delimiters and no end delimiter: the input has
  no start/end pair, the second start delimiter raises the error, and nothing is
  produced.
\<close>

theorem two_starts_no_pair_counterexample:
  "no_pairs [''/**\<newline>'', ''/**\<newline>''] \<and>
   extract_docs ''a.mojom'' [''/**\<newline>'', ''/**\<newline>''] =
     Inl (SyntaxError ''Expected end of comment'' (''a.mojom'', 2, 1, ''/**\<newline>'')) \<and>
   extract_docs ''a.mojom'' [''/**\<newline>'', ''/**\<newline>''] \<noteq> Inr (header (pipeline ''a.mojom'') @ footer)"
proof -
  have "no_pairs [''/**\<newline>'', ''/**\<newline>'']"
    by (simp add: no_pairs_Cons delim_eval) (simp add: no_pairs_alt)
  moreover have "extract_docs ''a.mojom'' [''/**\<newline>'', ''/**\<newline>''] =
     Inl (SyntaxError ''Expected end of comment'' (''a.mojom'', 2, 1, ''/**\<newline>''))"
    by (simp add: extract_docs_def start_state_def delim_eval)
  ultimately show ?thesis by simp
qed

subsection \<open>The example of the specification\<close>

text \<open>
  The input of five lines with one block, read from \<^verbatim>\<open>bar.mojom\<close>, gives the text of
  the specification, character for character, and the exit status 0.
\<close>

lemma scenario_example:
  "main ''bar.mojom'' ''line A\<newline>/**\<newline> * Hello.\<newline> */\<newline>line B\<newline>'' [] =
     (Inr 0,
      ''/* SPDX-License-Identifier: LGPL-2.1-or-later */\<newline>/*\<newline> * Copyright (C) 2021, Google Inc.\<newline> *\<newline> * bar_ipa_interface.cpp - Docs file for generated bar.mojom\<newline> *\<newline> * This file is auto-generated. Do not edit.\<newline> */\<newline>\<newline>namespace libcamera {\<newline>\<newline>/**\<newline> * Hello.\<newline> */\<newline>\<newline>} /* namespace libcamera */\<newline>'')"
  by (simp add: main_def readlines_def extract_docs_def start_state_def delim_eval
      pipeline_def split_def header_def footer_def)

end
